theory Spec2Isabelle
  imports Complex_Main
begin

section \<open>The bisection root finder of RootFinding\_part1.ipynb\<close>

text \<open>
  The function under verification, as the notebook defines it:
  \<^verbatim>\<open>
  def bisection(F, a, b, n):
      for i in range(n):
          h = (a + b) / 2
          if F(a)*F(h) < 0:
              b=h
          else:
              a=h
      return h
  \<close>
  The function is generic in its numbers: it uses only \<^verbatim>\<open>+\<close>, \<^verbatim>\<open>/ 2\<close>, \<^verbatim>\<open>*\<close> and \<^verbatim>\<open>< 0\<close> on
  the endpoints and on the values of \<open>F\<close>. It is embedded twice.
  \<^item> \<open>bisection\<close> runs the loop in exact arithmetic, on the reals, with \<open>F\<close> a pure total
    function. This is the arithmetic of the spec's data model and of the claims that speak
    of exact arithmetic (Python computes so when it is handed \<^verbatim>\<open>fractions.Fraction\<close>s).
  \<^item> \<open>bisection_on\<close> runs the same loop with the arithmetic as a parameter and with \<open>F\<close> a
    callable that may read and change the world it is called in. Its instance \<open>binary64\<close>
    is the arithmetic of Python's \<^verbatim>\<open>float\<close>: IEEE 754 doubles, rounded to nearest, ties to
    even, with signed zeros, infinities and NaN.
  The two agree where the arithmetic is exact (\<open>bisection_on_exact_real\<close>). The iteration
  budget \<open>n\<close> is a Python integer and may be zero or negative.
\<close>

subsection \<open>Data\<close>

text \<open>
  The only exception the function itself can raise: reading the local \<open>h\<close> at
  \<^verbatim>\<open>return h\<close> when no iteration has bound it.
\<close>

datatype error = UnboundLocalError

text \<open>
  The local variables \<open>a\<close>, \<open>b\<close>, \<open>h\<close> in exact arithmetic (\<open>h\<close> is unbound until the first
  iteration).
\<close>

record bstate =
  var_a :: real
  var_b :: real
  var_h :: "real option"

text \<open>
  The arithmetic the loop uses, as a parameter: \<^verbatim>\<open>x + y\<close>, \<^verbatim>\<open>x / 2\<close>, \<^verbatim>\<open>x * y\<close> and \<^verbatim>\<open>x < 0\<close>.
\<close>

record 'v arith =
  plus_op :: "'v \<Rightarrow> 'v \<Rightarrow> 'v"
  half_op :: "'v \<Rightarrow> 'v"
  times_op :: "'v \<Rightarrow> 'v \<Rightarrow> 'v"
  below_zero :: "'v \<Rightarrow> bool"

text \<open>
  A Python callable of one argument: it returns a value and may change the world \<open>'w\<close>
  (everything outside the locals of \<open>bisection\<close>) on the way.
\<close>

type_synonym ('v, 'w) callable = "'v \<Rightarrow> 'w \<Rightarrow> 'v \<times> 'w"

text \<open>The locals over any number type, together with the world.\<close>

record ('v, 'w) frame =
  loc_a :: 'v
  loc_b :: 'v
  loc_h :: "'v option"
  world :: 'w

text \<open>
  A Python \<^verbatim>\<open>float\<close>: a finite double (\<open>Finite 0\<close> is \<open>+0.0\<close>), \<open>-0.0\<close>, the infinities, NaN.
  \<open>Finite x\<close> stands for a double when \<open>x\<close> is one: \<open>m * 2 ^ k\<close> with \<open>\<bar>m\<bar> < 2 ^ 53\<close> and
  \<open>-1074 \<le> k \<le> 971\<close>. Python integers passed as endpoints are not covered by this type.
\<close>

datatype double = Finite real | NegZero | PosInf | NegInf | NaN

subsection \<open>Operations\<close>

text \<open>One pass through the loop body, in exact arithmetic and with a pure \<open>F\<close>.\<close>

definition body :: "(real \<Rightarrow> real) \<Rightarrow> bstate \<Rightarrow> bstate" where
  "body F s =
     (let h = (var_a s + var_b s) / 2;
          s1 = s\<lparr>var_h := Some h\<rparr>
      in if F (var_a s) * F h < 0 then s1\<lparr>var_b := h\<rparr> else s1\<lparr>var_a := h\<rparr>)"

text \<open>\<^verbatim>\<open>range(n)\<close>: the indices \<open>0, ..., n - 1\<close>, none when \<open>n \<le> 0\<close>.\<close>

definition range_py :: "int \<Rightarrow> nat list" where
  "range_py n = [0..<nat n]"

text \<open>\<^verbatim>\<open>for i in js: body\<close>; the index is not used by the body.\<close>

primrec for_loop :: "(real \<Rightarrow> real) \<Rightarrow> nat list \<Rightarrow> bstate \<Rightarrow> bstate" where
  "for_loop F [] s = s"
| "for_loop F (i # js) s = for_loop F js (body F s)"

text \<open>The locals on entry: the two arguments bound, \<open>h\<close> unbound.\<close>

definition entry :: "real \<Rightarrow> real \<Rightarrow> bstate" where
  "entry a b = \<lparr>var_a = a, var_b = b, var_h = None\<rparr>"

text \<open>The locals when the loop of \<^verbatim>\<open>bisection(F, a, b, n)\<close> exits.\<close>

definition bisection_state :: "(real \<Rightarrow> real) \<Rightarrow> real \<Rightarrow> real \<Rightarrow> int \<Rightarrow> bstate" where
  "bisection_state F a b n = for_loop F (range_py n) (entry a b)"

text \<open>The call itself: \<^verbatim>\<open>return h\<close> raises when \<open>h\<close> is unbound.\<close>

definition bisection :: "(real \<Rightarrow> real) \<Rightarrow> real \<Rightarrow> real \<Rightarrow> int \<Rightarrow> error + real" where
  "bisection F a b n =
     (case var_h (bisection_state F a b n) of
        None \<Rightarrow> Inl UnboundLocalError
      | Some h \<Rightarrow> Inr h)"

text \<open>
  The locals after the first \<open>k\<close> iterations of the loop of \<^verbatim>\<open>bisection(F, a, b, n)\<close>
  (all of them when \<open>k\<close> exceeds the number of iterations).
\<close>

definition state_after :: "(real \<Rightarrow> real) \<Rightarrow> real \<Rightarrow> real \<Rightarrow> int \<Rightarrow> nat \<Rightarrow> bstate" where
  "state_after F a b n k = for_loop F (take k (range_py n)) (entry a b)"

text \<open>The midpoint of the interval a state holds, and its signed width.\<close>

definition interval_mid :: "bstate \<Rightarrow> real" where
  "interval_mid s = (var_a s + var_b s) / 2"

definition interval_width :: "bstate \<Rightarrow> real" where
  "interval_width s = var_b s - var_a s"

text \<open>
  The values \<open>h\<close> takes in the first \<open>k\<close> iterations of the loop of
  \<^verbatim>\<open>bisection(F, a, b, n)\<close>, in order.
\<close>

definition midpoints :: "(real \<Rightarrow> real) \<Rightarrow> real \<Rightarrow> real \<Rightarrow> int \<Rightarrow> nat \<Rightarrow> real list" where
  "midpoints F a b n k = map (\<lambda>j. interval_mid (state_after F a b n j)) [0..<min k (nat n)]"

subsection \<open>The loop over any arithmetic and any callable\<close>

text \<open>The midpoint \<^verbatim>\<open>(a + b) / 2\<close> as the given arithmetic computes it.\<close>

definition mid_on :: "'v arith \<Rightarrow> ('v, 'w) frame \<Rightarrow> 'v" where
  "mid_on A s = half_op A (plus_op A (loc_a s) (loc_b s))"

text \<open>
  One pass through the loop body. \<open>h\<close> is computed first; Python then evaluates
  \<^verbatim>\<open>F(a)*F(h)\<close> left to right, so \<open>F\<close> is applied to \<open>a\<close> in the world as it stands and to \<open>h\<close>
  in the world the first call leaves. The values tested are the ones these two
  applications return, and the world is changed by them only.
\<close>

definition body_on :: "'v arith \<Rightarrow> ('v, 'w) callable \<Rightarrow> ('v, 'w) frame \<Rightarrow> ('v, 'w) frame" where
  "body_on A F s =
     (let h = half_op A (plus_op A (loc_a s) (loc_b s));
          (fa, w1) = F (loc_a s) (world s);
          (fh, w2) = F h w1;
          s1 = s\<lparr>loc_h := Some h, world := w2\<rparr>
      in if below_zero A (times_op A fa fh) then s1\<lparr>loc_b := h\<rparr> else s1\<lparr>loc_a := h\<rparr>)"

text \<open>The loop, the locals on entry in the world \<open>w\<close> the call starts in.\<close>

primrec for_loop_on ::
  "'v arith \<Rightarrow> ('v, 'w) callable \<Rightarrow> nat list \<Rightarrow> ('v, 'w) frame \<Rightarrow> ('v, 'w) frame" where
  "for_loop_on A F [] s = s"
| "for_loop_on A F (i # js) s = for_loop_on A F js (body_on A F s)"

definition entry_on :: "'v \<Rightarrow> 'v \<Rightarrow> 'w \<Rightarrow> ('v, 'w) frame" where
  "entry_on a b w = \<lparr>loc_a = a, loc_b = b, loc_h = None, world = w\<rparr>"

text \<open>The locals and the world when the loop exits.\<close>

definition exit_frame ::
  "'v arith \<Rightarrow> ('v, 'w) callable \<Rightarrow> 'v \<Rightarrow> 'v \<Rightarrow> int \<Rightarrow> 'w \<Rightarrow> ('v, 'w) frame" where
  "exit_frame A F a b n w = for_loop_on A F (range_py n) (entry_on a b w)"

text \<open>The call: what it returns or raises, and the world it leaves.\<close>

definition bisection_on ::
  "'v arith \<Rightarrow> ('v, 'w) callable \<Rightarrow> 'v \<Rightarrow> 'v \<Rightarrow> int \<Rightarrow> 'w \<Rightarrow> (error + 'v) \<times> 'w" where
  "bisection_on A F a b n w =
     (let s = exit_frame A F a b n w
      in (case loc_h s of None \<Rightarrow> Inl UnboundLocalError | Some h \<Rightarrow> Inr h, world s))"

text \<open>The locals and the world after the first \<open>k\<close> iterations.\<close>

definition frame_after ::
  "'v arith \<Rightarrow> ('v, 'w) callable \<Rightarrow> 'v \<Rightarrow> 'v \<Rightarrow> int \<Rightarrow> 'w \<Rightarrow> nat \<Rightarrow> ('v, 'w) frame" where
  "frame_after A F a b n w k = for_loop_on A F (take k (range_py n)) (entry_on a b w)"

text \<open>
  The world after \<open>F\<close> has been applied to each of \<open>xs\<close> in turn, starting in \<open>w\<close>, and
  nothing else has happened.
\<close>

definition apply_all :: "('v, 'w) callable \<Rightarrow> 'v list \<Rightarrow> 'w \<Rightarrow> 'w" where
  "apply_all F xs w = foldl (\<lambda>u x. snd (F x u)) w xs"

text \<open>
  The arguments expected of the calls of \<open>F\<close>: in each iteration the current left endpoint,
  then the midpoint.
\<close>

definition call_args ::
  "'v arith \<Rightarrow> ('v, 'w) callable \<Rightarrow> 'v \<Rightarrow> 'v \<Rightarrow> int \<Rightarrow> 'w \<Rightarrow> 'v list" where
  "call_args A F a b n w =
     concat (map (\<lambda>k. [loc_a (frame_after A F a b n w k), mid_on A (frame_after A F a b n w k)])
               [0..<nat n])"

text \<open>Exact arithmetic on the reals.\<close>

definition exact_real :: "real arith" where
  "exact_real = \<lparr>plus_op = (+), half_op = (\<lambda>x. x / 2), times_op = (*), below_zero = (\<lambda>x. x < 0)\<rparr>"

text \<open>
  A pure function as a callable, and two instrumented ones: \<open>logged f\<close> appends its
  argument to a log each time it is applied, \<open>counted f\<close> counts its applications.
\<close>

definition pure_fn :: "('v \<Rightarrow> 'v) \<Rightarrow> ('v, 'w) callable" where
  "pure_fn f x w = (f x, w)"

definition logged :: "('v \<Rightarrow> 'v) \<Rightarrow> ('v, 'v list) callable" where
  "logged f x w = (f x, w @ [x])"

definition counted :: "('v \<Rightarrow> 'v) \<Rightarrow> ('v, nat) callable" where
  "counted f x c = (f x, Suc c)"

text \<open>The locals of a frame over the reals, as a state of the exact loop.\<close>

definition locals_of :: "(real, 'w) frame \<Rightarrow> bstate" where
  "locals_of s = \<lparr>var_a = loc_a s, var_b = loc_b s, var_h = loc_h s\<rparr>"

subsection \<open>The arithmetic of Python floats\<close>

text \<open>
  Rounding a nonzero real to a double. \<open>binade x\<close> is the exponent of \<open>x\<close>, held at \<open>-1022\<close>
  for subnormal magnitudes; neighbouring doubles there are \<open>ulp x\<close> apart (\<open>52\<close> fraction
  bits). The real is rounded to the nearest multiple of \<open>ulp x\<close>, a tie to the even
  multiple; a result of magnitude \<open>2 ^ 1024\<close> or more is an infinity, a result of \<open>0\<close> is a
  zero with the sign of \<open>x\<close>.
\<close>

definition binade :: "real \<Rightarrow> int" where
  "binade x = max \<lfloor>log 2 \<bar>x\<bar>\<rfloor> (- 1022)"

definition ulp :: "real \<Rightarrow> real" where
  "ulp x = 2 powi (binade x - 52)"

definition round_half_even :: "real \<Rightarrow> int" where
  "round_half_even q =
     (if q - of_int \<lfloor>q\<rfloor> < 1 / 2 then \<lfloor>q\<rfloor>
      else if 1 / 2 < q - of_int \<lfloor>q\<rfloor> then \<lfloor>q\<rfloor> + 1
      else if even \<lfloor>q\<rfloor> then \<lfloor>q\<rfloor> else \<lfloor>q\<rfloor> + 1)"

definition round_to_double :: "real \<Rightarrow> double" where
  "round_to_double x =
     (let y = of_int (round_half_even (x / ulp x)) * ulp x
      in if 2 ^ 1024 \<le> \<bar>y\<bar> then (if 0 < x then PosInf else NegInf)
         else if y = 0 then (if 0 < x then Finite 0 else NegZero)
         else Finite y)"

text \<open>The value of a finite double, the sign bit, and the two kinds of special value.\<close>

definition value_of :: "double \<Rightarrow> real" where
  "value_of d = (case d of Finite x \<Rightarrow> x | _ \<Rightarrow> 0)"

definition sign_bit :: "double \<Rightarrow> bool" where
  "sign_bit d = (case d of Finite x \<Rightarrow> x < 0 | NegZero \<Rightarrow> True | NegInf \<Rightarrow> True | _ \<Rightarrow> False)"

definition is_inf :: "double \<Rightarrow> bool" where
  "is_inf d \<longleftrightarrow> d = PosInf \<or> d = NegInf"

definition is_zero :: "double \<Rightarrow> bool" where
  "is_zero d \<longleftrightarrow> d = Finite 0 \<or> d = NegZero"

text \<open>
  \<^verbatim>\<open>x + y\<close> on floats: NaN is contagious, \<open>inf + -inf\<close> is NaN, an exact sum of \<open>0\<close> is \<open>+0.0\<close>
  unless both operands are \<open>-0.0\<close>; otherwise the exact sum is rounded. Python raises no
  exception on overflow here.
\<close>

definition fadd :: "double \<Rightarrow> double \<Rightarrow> double" where
  "fadd x y =
     (if x = NaN \<or> y = NaN then NaN
      else if is_inf x \<or> is_inf y then
        (if is_inf x \<and> is_inf y \<and> x \<noteq> y then NaN else if is_inf x then x else y)
      else if value_of x + value_of y = 0 then
        (if x = NegZero \<and> y = NegZero then NegZero else Finite 0)
      else round_to_double (value_of x + value_of y))"

text \<open>
  \<^verbatim>\<open>x * y\<close> on floats: \<open>inf * 0\<close> is NaN, the sign of a zero or infinite product is the
  exclusive or of the signs; otherwise the exact product is rounded, to a signed zero when
  it underflows.
\<close>

definition fmul :: "double \<Rightarrow> double \<Rightarrow> double" where
  "fmul x y =
     (if x = NaN \<or> y = NaN then NaN
      else if is_inf x \<or> is_inf y then
        (if is_zero x \<or> is_zero y then NaN
         else if sign_bit x \<noteq> sign_bit y then NegInf else PosInf)
      else if value_of x * value_of y = 0 then
        (if sign_bit x \<noteq> sign_bit y then NegZero else Finite 0)
      else round_to_double (value_of x * value_of y))"

text \<open>\<^verbatim>\<open>x / 2\<close> on a float (the integer \<open>2\<close> converts to \<open>2.0\<close> exactly).\<close>

definition fhalf :: "double \<Rightarrow> double" where
  "fhalf x =
     (if x = NaN \<or> is_inf x \<or> is_zero x then x
      else round_to_double (value_of x / 2))"

text \<open>\<^verbatim>\<open>x < 0\<close> on a float: false for both zeros and for NaN.\<close>

definition flt0 :: "double \<Rightarrow> bool" where
  "flt0 x = (case x of Finite v \<Rightarrow> v < 0 | NegInf \<Rightarrow> True | _ \<Rightarrow> False)"

text \<open>The arithmetic of the loop when endpoints and values of \<open>F\<close> are floats.\<close>

definition binary64 :: "double arith" where
  "binary64 = \<lparr>plus_op = fadd, half_op = fhalf, times_op = fmul, below_zero = flt0\<rparr>"

subsection \<open>Test functions\<close>

text \<open>The two test functions of the notebook, in exact arithmetic.\<close>

definition func :: "real \<Rightarrow> real" where
  "func x = x\<^sup>2 - 3"

definition func2 :: "real \<Rightarrow> real" where
  "func2 x = x ^ 4 - 3 * x ^ 3 + 2 * x\<^sup>2 - 3 * x"

text \<open>A constant function, which brackets nothing.\<close>

definition const_one :: "real \<Rightarrow> real" where
  "const_one x = 1"

text \<open>
  \<^verbatim>\<open>lambda x: x * 2.0**-600\<close> on floats: a linear function whose values are small enough for
  the product of two of them to underflow.
\<close>

definition scaled :: "double \<Rightarrow> double" where
  "scaled x = fmul x (Finite (2 powi (- 600)))"

text \<open>\<open>r\<close> is the single root of \<open>F\<close> in the closed interval from \<open>a\<close> to \<open>b\<close>.\<close>

definition single_root :: "(real \<Rightarrow> real) \<Rightarrow> real \<Rightarrow> real \<Rightarrow> real \<Rightarrow> bool" where
  "single_root F a b r \<longleftrightarrow>
     a \<le> r \<and> r \<le> b \<and> F r = 0 \<and> (\<forall>x. a \<le> x \<and> x \<le> b \<and> F x = 0 \<longrightarrow> x = r)"

subsection \<open>The loop body and the loop\<close>

lemma entry_sel [simp]:
  "var_a (entry a b) = a" "var_b (entry a b) = b" "var_h (entry a b) = None"
  by (simp_all add: entry_def)

lemma body_h [simp]: "var_h (body F s) = Some (interval_mid s)"
  by (simp add: body_def interval_mid_def Let_def)

lemma body_a:
  "var_a (body F s) = (if F (var_a s) * F (interval_mid s) < 0 then var_a s else interval_mid s)"
  by (simp add: body_def interval_mid_def Let_def)

lemma body_b:
  "var_b (body F s) = (if F (var_a s) * F (interval_mid s) < 0 then interval_mid s else var_b s)"
  by (simp add: body_def interval_mid_def Let_def)

lemma body_width: "interval_width (body F s) = interval_width s / 2"
  by (simp add: interval_width_def body_a body_b interval_mid_def field_simps)

lemma for_loop_funpow: "for_loop F js s = (body F ^^ length js) s"
  by (induction js arbitrary: s) (simp_all add: funpow_swap1)

lemma length_range_py [simp]: "length (range_py n) = nat n"
  by (simp add: range_py_def)

lemma bisection_state_funpow: "bisection_state F a b n = (body F ^^ nat n) (entry a b)"
  by (simp add: bisection_state_def for_loop_funpow)

lemma state_after_funpow: "state_after F a b n k = (body F ^^ min k (nat n)) (entry a b)"
  by (simp add: state_after_def for_loop_funpow min.commute)

lemma state_after_Suc:
  "k < nat n \<Longrightarrow> state_after F a b n (Suc k) = body F (state_after F a b n k)"
  by (simp add: state_after_funpow min_def)

lemma state_after_0 [simp]: "state_after F a b n 0 = entry a b"
  by (simp add: state_after_funpow)

lemma funpow_width: "interval_width ((body F ^^ k) s) = interval_width s / 2 ^ k"
  by (induction k) (simp_all add: body_width)

text \<open>With a positive budget the value returned is the midpoint computed last.\<close>

lemma bisection_last_mid:
  assumes "1 \<le> n"
  shows "bisection F a b n = Inr (interval_mid (state_after F a b n (nat n - 1)))"
proof -
  from assms obtain k where k: "nat n = Suc k"
    by (cases "nat n") auto
  then have "var_h (bisection_state F a b n) = Some (interval_mid ((body F ^^ k) (entry a b)))"
    by (simp add: bisection_state_funpow)
  moreover have "state_after F a b n (nat n - 1) = (body F ^^ k) (entry a b)"
    using k by (simp add: state_after_funpow)
  ultimately show ?thesis
    by (simp add: bisection_def)
qed

text \<open>Unfolding a run on concrete arguments.\<close>

lemmas run_simps = bisection_def bisection_state_def state_after_def range_py_def entry_def
  body_def Let_def interval_mid_def interval_width_def midpoints_def upt_conv_Cons

text \<open>The midpoints of the first \<open>k\<close> iterations, read off the iterated loop body.\<close>

lemma midpoints_funpow:
  "midpoints F a b n k = map (\<lambda>j. interval_mid ((body F ^^ j) (entry a b))) [0..<min k (nat n)]"
  by (simp add: midpoints_def state_after_funpow)

lemma set_midpoints:
  "h \<in> set (midpoints F a b n k) \<longleftrightarrow>
     (\<exists>j. j < k \<and> j < nat n \<and> h = interval_mid ((body F ^^ j) (entry a b)))"
  by (auto simp: midpoints_funpow)

lemma midpoints_nonzero:
  assumes "\<forall>h \<in> set (midpoints F a b n k). F h \<noteq> 0"
  shows "\<forall>j<min k (nat n). F (interval_mid ((body F ^^ j) (entry a b))) \<noteq> 0"
proof (intro allI impI)
  fix j assume "j < min k (nat n)"
  then have "interval_mid ((body F ^^ j) (entry a b)) \<in> set (midpoints F a b n k)"
    by (auto simp: set_midpoints)
  with assms show "F (interval_mid ((body F ^^ j) (entry a b))) \<noteq> 0"
    by blast
qed


text \<open>Both endpoints stay within the interval given, and stay distinct if they were.\<close>

lemma funpow_within:
  assumes "var_a s \<noteq> var_b s"
  shows "var_a ((body F ^^ k) s) \<noteq> var_b ((body F ^^ k) s)
       \<and> min (var_a s) (var_b s) \<le> var_a ((body F ^^ k) s)
       \<and> var_a ((body F ^^ k) s) \<le> max (var_a s) (var_b s)
       \<and> min (var_a s) (var_b s) \<le> var_b ((body F ^^ k) s)
       \<and> var_b ((body F ^^ k) s) \<le> max (var_a s) (var_b s)"
proof (induction k)
  case 0
  from assms show ?case by simp
next
  case (Suc k)
  then show ?case
    by (simp add: body_a body_b interval_mid_def)
qed

text \<open>A pass whose midpoint is not a zero of \<open>F\<close> keeps the sign change between the endpoints.\<close>

lemma body_bracket:
  assumes "F (var_a s) * F (var_b s) < 0" and "F (interval_mid s) \<noteq> 0"
  shows "F (var_a (body F s)) * F (var_b (body F s)) < 0"
proof (cases "F (var_a s) * F (interval_mid s) < 0")
  case True
  then show ?thesis by (simp add: body_a body_b)
next
  case False
  with assms have "F (interval_mid s) * F (var_b s) < 0"
    by (auto simp: mult_less_0_iff not_less zero_le_mult_iff)
  with False show ?thesis by (simp add: body_a body_b)
qed

lemma funpow_bracket:
  assumes "F (var_a s) * F (var_b s) < 0"
    and "\<forall>j<k. F (interval_mid ((body F ^^ j) s)) \<noteq> 0"
  shows "F (var_a ((body F ^^ k) s)) * F (var_b ((body F ^^ k) s)) < 0"
  using assms(2)
proof (induction k)
  case 0
  from assms(1) show ?case by simp
next
  case (Suc k)
  then show ?case by (simp add: body_bracket)
qed



text \<open>
  The intermediate value theorem for a sign change, and its use by one pass: a bracket
  that encloses the single root \<open>r\<close> and has a sign change still encloses \<open>r\<close> after the
  pass (also when the midpoint is \<open>r\<close> itself).
\<close>

lemma sign_change_root:
  fixes F :: "real \<Rightarrow> real"
  assumes "u \<le> v" and "continuous_on {u..v} F" and "F u * F v < 0"
  shows "\<exists>x. u \<le> x \<and> x \<le> v \<and> F x = 0"
proof (cases "F u < 0")
  case True
  with assms(3) have "F u \<le> 0" "0 \<le> F v"
    by (auto simp: mult_less_0_iff)
  then show ?thesis
    using assms(1,2) by (rule IVT')
next
  case False
  with assms(3) have "F v \<le> 0" "0 \<le> F u"
    by (auto simp: mult_less_0_iff)
  then show ?thesis
    using assms(1,2) by (rule IVT2')
qed

lemma body_encloses:
  assumes cont: "continuous_on {lo..hi} F" and root: "single_root F lo hi r"
    and bounds: "lo \<le> var_a s" "var_a s \<le> r" "r \<le> var_b s" "var_b s \<le> hi"
    and sign: "F (var_a s) * F (var_b s) < 0"
  shows "lo \<le> var_a (body F s) \<and> var_a (body F s) \<le> r
       \<and> r \<le> var_b (body F s) \<and> var_b (body F s) \<le> hi"
proof -
  let ?h = "interval_mid s"
  from bounds have h: "var_a s \<le> ?h" "?h \<le> var_b s"
    by (simp_all add: interval_mid_def)
  from bounds h have hb: "lo \<le> ?h" "?h \<le> hi"
    by linarith+
  have only: "x = r" if "lo \<le> x" "x \<le> hi" "F x = 0" for x
    using root that by (simp add: single_root_def)
  consider (left) "F (var_a s) * F ?h < 0"
    | (hit) "\<not> F (var_a s) * F ?h < 0" "F ?h = 0"
    | (right) "\<not> F (var_a s) * F ?h < 0" "F ?h \<noteq> 0"
    by blast
  then show ?thesis
  proof cases
    case left
    have "continuous_on {var_a s..?h} F"
      using cont bounds h by (auto intro: continuous_on_subset)
    from sign_change_root [OF h(1) this left]
    obtain x where x: "var_a s \<le> x" "x \<le> ?h" "F x = 0"
      by blast
    with bounds h have "x = r"
      by (intro only) simp_all
    with x bounds hb left show ?thesis
      by (simp add: body_a body_b)
  next
    case hit
    from hb hit(2) have "?h = r"
      by (intro only)
    with bounds hit(1) show ?thesis
      by (simp add: body_a body_b)
  next
    case right
    with sign have pos: "F ?h * F (var_b s) < 0"
      by (auto simp: mult_less_0_iff not_less zero_le_mult_iff)
    have "continuous_on {?h..var_b s} F"
      using cont bounds h by (auto intro: continuous_on_subset)
    from sign_change_root [OF h(2) this pos]
    obtain x where x: "?h \<le> x" "x \<le> var_b s" "F x = 0"
      by blast
    with bounds h have "x = r"
      by (intro only) simp_all
    with x bounds hb right(1) show ?thesis
      by (simp add: body_a body_b)
  qed
qed

lemma funpow_encloses:
  assumes cont: "continuous_on {lo..hi} F" and root: "single_root F lo hi r"
    and bounds: "lo \<le> var_a s" "var_a s \<le> r" "r \<le> var_b s" "var_b s \<le> hi"
    and sign: "F (var_a s) * F (var_b s) < 0"
    and nz: "\<forall>j<k - 1. F (interval_mid ((body F ^^ j) s)) \<noteq> 0"
  shows "lo \<le> var_a ((body F ^^ k) s) \<and> var_a ((body F ^^ k) s) \<le> r
       \<and> r \<le> var_b ((body F ^^ k) s) \<and> var_b ((body F ^^ k) s) \<le> hi"
  using nz
proof (induction k)
  case 0
  from bounds show ?case by simp
next
  case (Suc k)
  then have nzk: "\<forall>j<k. F (interval_mid ((body F ^^ j) s)) \<noteq> 0"
    by simp
  then have "\<forall>j<k - 1. F (interval_mid ((body F ^^ j) s)) \<noteq> 0"
    by simp
  from Suc.IH [OF this] funpow_bracket [OF sign nzk]
  show ?case
    by (simp add: body_encloses [OF cont root])
qed

lemma mid_within_half_width:
  assumes "var_a s \<le> r" and "r \<le> var_b s"
  shows "\<bar>interval_mid s - r\<bar> \<le> interval_width s / 2"
  using assms by (simp add: interval_mid_def interval_width_def abs_le_iff field_simps)

text \<open>The notebook's test functions: continuity and the roots used below.\<close>

lemma func2_roots: "single_root func2 (- 1) 1 0"
proof -
  have "x = 0" if "- 1 \<le> x" "x \<le> 1" "func2 x = 0" for x
  proof -
    have "x\<^sup>2 * (x - 3) \<le> 0"
      using that(2) by (simp add: mult_nonneg_nonpos)
    then have "x\<^sup>2 * (x - 3) + (2 * x - 3) < 0"
      using that(2) by simp
    moreover have "func2 x = x * (x\<^sup>2 * (x - 3) + (2 * x - 3))"
      by (simp add: func2_def algebra_simps power2_eq_square power3_eq_cube power4_eq_xxxx)
    ultimately show ?thesis
      using that(3) by auto
  qed
  then show ?thesis
    by (simp add: single_root_def func2_def)
qed

lemma func2_continuous: "continuous_on A func2"
  unfolding func2_def [abs_def] by (intro continuous_intros)

lemma func_continuous: "continuous_on A func"
  unfolding func_def [abs_def] by (intro continuous_intros)

lemma func_roots: "single_root func 1 2 (sqrt 3)"
proof -
  have "1 \<le> sqrt 3"
    by (rule real_le_rsqrt) simp
  moreover have "sqrt 3 \<le> 2"
    by (rule real_le_lsqrt) simp_all
  moreover have "x = sqrt 3" if "1 \<le> x" "func x = 0" for x
    using that real_sqrt_unique [of x 3] by (simp add: func_def)
  ultimately show ?thesis
    by (simp add: single_root_def func_def)
qed

subsection \<open>The loop over any arithmetic\<close>

lemma body_on_h [simp]: "loc_h (body_on A F s) = Some (mid_on A s)"
  by (simp add: body_on_def mid_on_def Let_def split: prod.split)

lemma body_on_world:
  "world (body_on A F s) = snd (F (mid_on A s) (snd (F (loc_a s) (world s))))"
  by (simp add: body_on_def mid_on_def Let_def split: prod.split)

lemma for_loop_on_funpow: "for_loop_on A F js s = (body_on A F ^^ length js) s"
  by (induction js arbitrary: s) (simp_all add: funpow_swap1)

lemma exit_frame_funpow: "exit_frame A F a b n w = (body_on A F ^^ nat n) (entry_on a b w)"
  by (simp add: exit_frame_def for_loop_on_funpow)

lemma frame_after_funpow:
  "frame_after A F a b n w k = (body_on A F ^^ min k (nat n)) (entry_on a b w)"
  by (simp add: frame_after_def for_loop_on_funpow min.commute)

lemma apply_all_append: "apply_all F (xs @ ys) w = apply_all F ys (apply_all F xs w)"
  by (simp add: apply_all_def)

lemma funpow_world:
  "world ((body_on A F ^^ k) s)
     = apply_all F (concat (map (\<lambda>j. [loc_a ((body_on A F ^^ j) s), mid_on A ((body_on A F ^^ j) s)])
                              [0..<k])) (world s)"
proof (induction k)
  case 0
  show ?case by (simp add: apply_all_def)
next
  case (Suc k)
  then show ?case
    by (simp add: body_on_world apply_all_append) (simp add: apply_all_def)
qed

lemma call_args_funpow:
  "call_args A F a b n w
     = concat (map (\<lambda>j. [loc_a ((body_on A F ^^ j) (entry_on a b w)),
                           mid_on A ((body_on A F ^^ j) (entry_on a b w))]) [0..<nat n])"
  unfolding call_args_def
  by (rule arg_cong [where f = concat], rule map_cong [OF refl])
     (simp add: frame_after_funpow min_def)

lemma length_call_args: "length (call_args A F a b n w) = 2 * nat n"
  by (simp add: call_args_def length_concat comp_def sum_list_triv)

lemma apply_all_counted: "apply_all (counted f) xs c = c + length xs"
  by (induction xs arbitrary: c) (simp_all add: apply_all_def counted_def)

lemma apply_all_logged: "apply_all (logged f) xs w = w @ xs"
  by (induction xs arbitrary: w) (simp_all add: apply_all_def logged_def)

lemmas run_on_simps = bisection_on_def exit_frame_def frame_after_def call_args_def range_py_def
  entry_on_def body_on_def mid_on_def Let_def upt_conv_Cons apply_all_def

text \<open>
  In exact arithmetic, and with a callable that returns the values of a pure function
  \<open>F\<close>, the general loop is the exact one.
\<close>

lemma body_on_exact_real:
  assumes "\<And>x w. fst (G x w) = F x"
  shows "locals_of (body_on exact_real G s) = body F (locals_of s)"
  by (simp add: body_on_def body_def exact_real_def locals_of_def Let_def case_prod_beta assms)

lemma for_loop_on_exact_real:
  assumes "\<And>x w. fst (G x w) = F x"
  shows "locals_of (for_loop_on exact_real G js s) = for_loop F js (locals_of s)"
  by (induction js arbitrary: s) (simp_all add: body_on_exact_real [OF assms])

lemma bisection_on_exact_real:
  assumes "\<And>x w. fst (G x w) = F x"
  shows "fst (bisection_on exact_real G a b n w) = bisection F a b n"
proof -
  have "locals_of (entry_on a b w) = entry a b"
    by (simp add: locals_of_def entry_on_def entry_def)
  with for_loop_on_exact_real [OF assms, where js = "range_py n" and s = "entry_on a b w"]
  have "locals_of (exit_frame exact_real G a b n w) = bisection_state F a b n"
    by (simp add: exit_frame_def bisection_state_def)
  then have "loc_h (exit_frame exact_real G a b n w) = var_h (bisection_state F a b n)"
    by (metis bstate.select_convs(3) locals_of_def)
  then show ?thesis
    by (simp add: bisection_on_def bisection_def Let_def)
qed

subsection \<open>Rounding to doubles\<close>

lemma powr_powi: "(2::real) powr real_of_int e = 2 powi e"
  by (rule powr_real_of_int') simp_all

lemma round_half_even_int [simp]: "round_half_even (of_int m) = m"
  by (simp add: round_half_even_def)

lemma round_half_even_small:
  assumes "\<bar>q\<bar> < 1 / 2"
  shows "round_half_even q = 0"
proof (cases "0 \<le> q")
  case True
  with assms have "\<lfloor>q\<rfloor> = 0"
    by (simp add: floor_eq_iff)
  with assms True show ?thesis
    by (simp add: round_half_even_def)
next
  case False
  with assms have "\<lfloor>q\<rfloor> = - 1"
    by (simp add: floor_eq_iff)
  with assms False show ?thesis
    by (simp add: round_half_even_def)
qed

lemma binade_eq:
  assumes "2 powi e \<le> \<bar>x\<bar>" and "\<bar>x\<bar> < 2 powi (e + 1)"
  shows "binade x = max e (- 1022)"
proof -
  have "0 < (2::real) powi e"
    by simp
  with assms(1) have "0 < \<bar>x\<bar>"
    by linarith
  moreover have "2 powr real_of_int e \<le> \<bar>x\<bar>"
    using assms(1) by (simp only: powr_powi)
  moreover have "real_of_int e + 1 = real_of_int (e + 1)"
    by simp
  then have "\<bar>x\<bar> < 2 powr (real_of_int e + 1)"
    using assms(2) by (simp only: powr_powi)
  ultimately have "\<lfloor>log 2 \<bar>x\<bar>\<rfloor> = e"
    by (subst floor_log_eq_powr_iff) simp_all
  then show ?thesis
    by (simp only: binade_def)
qed

lemma binade_subnormal:
  assumes "x \<noteq> 0" and "\<bar>x\<bar> < 2 powi (- 1022)"
  shows "binade x = - 1022"
proof -
  have "\<bar>x\<bar> < 2 powr real_of_int (- 1022)"
    using assms(2) by (simp only: powr_powi)
  moreover from assms(1) have "0 < \<bar>x\<bar>"
    by simp
  ultimately have "log 2 \<bar>x\<bar> < real_of_int (- 1022)"
    by (subst log_less_iff) simp_all
  then have "\<lfloor>log 2 \<bar>x\<bar>\<rfloor> < - 1022"
    by (simp only: floor_less_iff)
  then show ?thesis
    by (simp only: binade_def max_def) simp
qed

lemma round_to_double_exact:
  assumes "x = of_int i * ulp x" and "x \<noteq> 0" and "\<bar>x\<bar> < 2 ^ 1024"
  shows "round_to_double x = Finite x"
proof -
  have "0 < ulp x"
    by (simp add: ulp_def)
  then have "x / ulp x = of_int i"
    using assms(1) by (metis nonzero_eq_divide_eq less_numeral_extra(3))
  then have "of_int (round_half_even (x / ulp x)) * ulp x = x"
    using assms(1) by simp
  with assms(2,3) show ?thesis
    by (simp only: round_to_double_def Let_def) simp
qed


lemma round_to_double_underflow:
  assumes "x \<noteq> 0" and "\<bar>x\<bar> < 2 powi (- 1075)"
  shows "round_to_double x = (if 0 < x then Finite 0 else NegZero)"
proof -
  have "(2::real) powi (- 1075) < 2 powi (- 1022)"
    by (rule power_int_strict_increasing) simp_all
  with assms(2) have "\<bar>x\<bar> < 2 powi (- 1022)"
    by linarith
  with assms(1) have "binade x = - 1022"
    by (rule binade_subnormal)
  then have u: "ulp x = 2 powi (- 1074)"
    by (simp only: ulp_def) simp
  have "(2::real) powi (- 1074) = 2 * 2 powi (- 1075)"
    using power_int_add_1' [of "2::real" "- 1075"] by simp
  then have "\<bar>x / ulp x\<bar> < 1 / 2"
    using assms(2) unfolding u by (simp only: abs_divide) (simp add: field_simps)
  then have "round_half_even (x / ulp x) = 0"
    by (rule round_half_even_small)
  then show ?thesis
    by (simp only: round_to_double_def Let_def) simp
qed

lemma round_to_double_representable:
  assumes "m \<noteq> 0" and "\<bar>m\<bar> < 2 ^ 53" and "- 1074 \<le> k" and "k \<le> 971"
  shows "round_to_double (of_int m * 2 powi k) = Finite (of_int m * 2 powi k)"
proof -
  define x :: real where "x = of_int m * 2 powi k"
  from assms(1) have "1 \<le> nat \<bar>m\<bar>"
    by simp
  from ex_power_ivl1 [OF order_refl this]
  obtain j where j: "2 ^ j \<le> nat \<bar>m\<bar>" "nat \<bar>m\<bar> < 2 ^ (j + 1)"
    by blast
  then have jm: "(2::int) ^ j \<le> \<bar>m\<bar>" "\<bar>m\<bar> < 2 ^ (j + 1)"
    by (simp_all add: le_nat_iff nat_less_iff)
  with assms(2) have "(2::int) ^ j < 2 ^ 53"
    by linarith
  with power_less_imp_less_exp [of "2::int" j 53] have j52: "j \<le> 52"
    by simp
  have absx: "\<bar>x\<bar> = of_int \<bar>m\<bar> * 2 powi k"
    by (simp add: x_def abs_mult)
  have lo: "2 powi (int j + k) \<le> \<bar>x\<bar>"
  proof -
    have "(2::real) powi (int j + k) = 2 ^ j * 2 powi k"
      by (simp add: power_int_add)
    moreover have "(2::real) ^ j \<le> of_int \<bar>m\<bar>"
      using jm(1) by (metis of_int_le_iff of_int_numeral of_int_power)
    ultimately show ?thesis
      unfolding absx by (simp add: mult_right_mono)
  qed
  have hi: "\<bar>x\<bar> < 2 powi (int j + k + 1)"
  proof -
    have "int j + k + 1 = int (j + 1) + k"
      by simp
    moreover have "(2::real) powi (int (j + 1) + k) = 2 powi int (j + 1) * 2 powi k"
      by (rule power_int_add) simp
    ultimately have "(2::real) powi (int j + k + 1) = 2 powi int (j + 1) * 2 powi k"
      by (simp only:)
    then have "(2::real) powi (int j + k + 1) = 2 ^ (j + 1) * 2 powi k"
      by (simp only: power_int_of_nat)
    moreover have "of_int \<bar>m\<bar> < (2::real) ^ (j + 1)"
      using jm(2) by (metis of_int_less_iff of_int_numeral of_int_power)
    ultimately show ?thesis
      unfolding absx by (simp add: mult_strict_right_mono)
  qed
  from lo hi have b: "binade x = max (int j + k) (- 1022)"
    by (rule binade_eq)
  define d where "d = k - (binade x - 52)"
  have d0: "0 \<le> d"
    using b j52 assms(3) by (simp add: d_def max_def split: if_splits)
  have "(2::real) powi k = 2 powi d * 2 powi (binade x - 52)"
    using power_int_add [of "2::real" d "binade x - 52"] by (simp add: d_def)
  also have "(2::real) powi d = of_int (2 ^ nat d)"
    using d0 by (simp add: power_int_def)
  finally have grid: "x = of_int (m * 2 ^ nat d) * ulp x"
    by (simp add: x_def ulp_def)
  have "x \<noteq> 0"
    using assms(1) by (simp add: x_def)
  moreover have "\<bar>x\<bar> < 2 ^ 1024"
  proof -
    have "(2::real) powi k \<le> 2 powi 971"
      using assms(4) by (intro power_int_increasing) simp_all
    moreover have "of_int \<bar>m\<bar> < (2::real) ^ 53"
      using assms(2) by (metis of_int_less_iff of_int_numeral of_int_power)
    ultimately have "\<bar>x\<bar> < 2 ^ 53 * 2 powi 971"
      unfolding absx by (intro mult_less_le_imp_less) simp_all
    also have "(2::real) ^ 53 * 2 powi 971 = 2 ^ 1024"
      by (simp flip: power_add)
    finally show ?thesis .
  qed
  ultimately have "round_to_double x = Finite x"
    using grid by (intro round_to_double_exact)
  then show ?thesis
    by (simp only: x_def)
qed

lemma round_to_double_int:
  assumes "m \<noteq> 0" and "\<bar>m\<bar> < 2 ^ 53"
  shows "round_to_double (of_int m) = Finite (of_int m)"
  using round_to_double_representable [OF assms, of 0] by simp

lemma round_small_numerals:
  "round_to_double 1 = Finite 1" "round_to_double 2 = Finite 2" "round_to_double 4 = Finite 4"
  using round_to_double_int [of 1] round_to_double_int [of 2] round_to_double_int [of 4]
  by simp_all

lemmas double_ops = fadd_def fmul_def fhalf_def flt0_def value_of_def sign_bit_def is_inf_def
  is_zero_def

lemma fadd_examples:
  "fadd (Finite (- 1)) (Finite 3) = Finite 2"
  "fadd (Finite 3) (Finite (- 1)) = Finite 2"
  "fadd (Finite 1) (Finite 3) = Finite 4"
  "fadd (Finite 1) (Finite (- 1)) = Finite 0"
  by (simp_all add: double_ops round_small_numerals)

lemma fhalf_examples:
  "fhalf (Finite 2) = Finite 1" "fhalf (Finite 4) = Finite 2" "fhalf (Finite 0) = Finite 0"
  "fhalf PosInf = PosInf"
  by (simp_all add: double_ops round_small_numerals)

lemma scaled_examples:
  "scaled (Finite (- 1)) = Finite (- (2 powi (- 600)))"
  "scaled (Finite 1) = Finite (2 powi (- 600))"
  "scaled (Finite 3) = Finite (3 * 2 powi (- 600))"
  using round_to_double_representable [of "- 1" "- 600"]
    round_to_double_representable [of 1 "- 600"]
    round_to_double_representable [of 3 "- 600"]
  by (simp_all add: scaled_def double_ops)

lemma product_underflows:
  "fmul (Finite (- (2 powi (- 600)))) (Finite (2 powi (- 600))) = NegZero"
  "fmul (Finite (3 * 2 powi (- 600))) (Finite (2 powi (- 600))) = Finite 0"
proof -
  have p: "(2::real) powi (- 600) * 2 powi (- 600) = 2 powi (- 1200)"
    using power_int_add [of "2::real" "- 600" "- 600"] by simp
  have lt: "(2::real) powi (- 1200) < 2 powi (- 1077)"
    by (rule power_int_strict_increasing) simp_all
  have q: "(2::real) powi (- 1075) = 4 * 2 powi (- 1077)"
    using power_int_add [of "2::real" 2 "- 1077"] by simp
  have pos: "0 < (2::real) powi (- 1200)"
    by simp
  have "round_to_double (- (2 powi (- 1200))) = NegZero"
    using round_to_double_underflow [of "- (2 powi (- 1200))"] lt q pos
    by (simp only: abs_minus_cancel abs_of_pos [OF pos]) simp
  moreover have "round_to_double (3 * 2 powi (- 1200)) = Finite 0"
    using round_to_double_underflow [of "3 * 2 powi (- 1200)"] lt q pos
    by (simp add: abs_mult del: power_int_numeral_neg_numeral power_int_minus)
  ultimately show
    "fmul (Finite (- (2 powi (- 600)))) (Finite (2 powi (- 600))) = NegZero"
    "fmul (Finite (3 * 2 powi (- 600))) (Finite (2 powi (- 600))) = Finite 0"
    using p pos
    by (simp_all add: double_ops mult.assoc del: power_int_numeral_neg_numeral)
qed


lemmas fp_run = run_on_simps binary64_def pure_fn_def fadd_examples fhalf_examples
  scaled_examples product_underflows flt0_def

text \<open>
  In double arithmetic a product that underflows breaks both the error bound and the
  symmetry of the endpoints. On the bracket \<open>(-1.0, 3.0)\<close> the function \<open>scaled\<close> has
  opposite signs at the ends and its single root at \<open>0\<close>, and no midpoint is a zero of it;
  yet two iterations return \<open>2.0\<close>, further from the root than \<open>(3 - (-1)) / 2 ^ 2\<close>, and
  with the endpoints swapped they return \<open>0.0\<close>.
\<close>

lemma underflow_breaks_bound_and_symmetry:
  "fst (bisection_on binary64 (pure_fn scaled) (Finite (- 1)) (Finite 3) 2 ()) = Inr (Finite 2)
   \<and> fst (bisection_on binary64 (pure_fn scaled) (Finite 3) (Finite (- 1)) 2 ()) = Inr (Finite 0)"
  by (simp add: fp_run del: power_int_numeral_neg_numeral power_int_minus)

subsection \<open>Claims\<close>

text \<open>
  C1, as stated: for \<open>F\<close> continuous with a single root \<open>r\<close> in \<open>[a, b]\<close>, \<open>F(a) F(b) < 0\<close> and
  \<open>n \<ge> 1\<close>, the estimate is within \<open>(b - a) / 2 ^ n\<close> of \<open>r\<close>. It fails when a midpoint
  is the root itself: the else branch then moves \<open>a\<close> onto the root, the product
  \<open>F(a) F(h)\<close> is \<open>0\<close> from then on, and every later pass moves \<open>a\<close> further towards \<open>b\<close>.
  The notebook's \<open>func2\<close> on the bracket \<open>(-1, 1)\<close> has the single root \<open>0\<close>, hit by the first
  midpoint; with \<open>n = 3\<close> the estimate is \<open>3/4\<close>, further from \<open>0\<close> than \<open>2 / 2 ^ 3\<close>.
\<close>

theorem bisection_error_bound_fails_on_zero_midpoint:
  "continuous_on {- 1..1} func2 \<and> single_root func2 (- 1) 1 0 \<and> func2 (- 1) * func2 1 < 0
   \<and> bisection func2 (- 1) 1 3 = Inr (3 / 4) \<and> \<not> \<bar>3 / 4 - 0\<bar> \<le> (1 - (- 1)) / (2::real) ^ nat 3"
  using func2_continuous [of "{- 1..1}"] func2_roots
  by (simp add: run_simps func2_def)

text \<open>
  C1, amended: in exact arithmetic, for \<open>F\<close> continuous on \<open>[a, b]\<close> with a single root \<open>r\<close>
  there, \<open>F(a) F(b) < 0\<close> and \<open>n \<ge> 1\<close>, if none of the midpoints computed before the last
  two iterations is a zero of \<open>F\<close>, the call returns an estimate within \<open>(b - a) / 2 ^ n\<close>
  of \<open>r\<close>. (A root hit in the last iteration is returned; one hit in the iteration before
  leaves the estimate exactly \<open>(b - a) / 2 ^ n\<close> away. In double arithmetic the bound is lost
  to rounding once it falls below the spacing of the doubles, and to underflow of the
  product, see \<open>underflow_breaks_bound_and_symmetry\<close>.)
\<close>

theorem bisection_error_bound:
  assumes "1 \<le> n" and "continuous_on {a..b} F" and "single_root F a b r"
    and "F a * F b < 0"
    and "\<forall>h \<in> set (midpoints F a b n (nat n - 2)). F h \<noteq> 0"
  shows "\<exists>e. bisection F a b n = Inr e \<and> \<bar>e - r\<bar> \<le> (b - a) / 2 ^ nat n"
proof -
  let ?s = "(body F ^^ (nat n - 1)) (entry a b)"
  have k: "min (nat n - 2) (nat n) = nat n - 1 - 1"
    by simp
  have nz: "\<forall>j<nat n - 1 - 1. F (interval_mid ((body F ^^ j) (entry a b))) \<noteq> 0"
    using midpoints_nonzero [OF assms(5)] by (simp only: k)
  from assms(3) have r: "a \<le> r" "r \<le> b"
    by (simp_all add: single_root_def)
  have "a \<le> var_a ?s \<and> var_a ?s \<le> r \<and> r \<le> var_b ?s \<and> var_b ?s \<le> b"
    using assms(4) r by (intro funpow_encloses [OF assms(2,3) _ _ _ _ _ nz]) simp_all
  then have "\<bar>interval_mid ?s - r\<bar> \<le> interval_width ?s / 2"
    by (intro mid_within_half_width) blast+
  moreover have "interval_width ?s = (b - a) / 2 ^ (nat n - 1)"
    by (simp add: funpow_width) (simp add: interval_width_def)
  moreover have "(b - a) / 2 ^ (nat n - 1) / 2 = (b - a) / 2 ^ nat n"
  proof -
    from assms(1) have "nat n = Suc (nat n - 1)"
      by simp
    then have "(2::real) ^ nat n = 2 * 2 ^ (nat n - 1)"
      by (metis power_Suc)
    then show ?thesis
      by simp
  qed
  ultimately have "\<bar>interval_mid ?s - r\<bar> \<le> (b - a) / 2 ^ nat n"
    by (simp only:)
  with assms(1) show ?thesis
    by (simp add: bisection_last_mid state_after_funpow)
qed

theorem bisection_error_bound_witness:
  "bisection func 1 2 3 = Inr (13 / 8) \<and> \<bar>13 / 8 - sqrt 3\<bar> \<le> (2 - 1) / 2 ^ nat 3"
proof -
  have m: "midpoints func 1 2 3 (nat 3 - 2) = [3 / 2]"
    by (simp add: run_simps func_def power2_eq_square)
  have f: "func 1 * func 2 < 0" "func (3 / 2) \<noteq> 0"
    by (simp_all add: func_def power2_eq_square)
  have v: "bisection func 1 2 3 = Inr (13 / 8)"
    by (simp add: run_simps func_def power2_eq_square)
  from bisection_error_bound [of 3 1 2 func "sqrt 3", OF _ func_continuous func_roots] m f
  obtain e where e: "bisection func 1 2 3 = Inr e" and "\<bar>e - sqrt 3\<bar> \<le> (2 - 1) / 2 ^ nat 3"
    by auto
  moreover from e v have "e = 13 / 8"
    by (simp only: sum.inject)
  ultimately show ?thesis
    by (simp only: v simp_thms)
qed

text \<open>
  C2, as stated: the value returned is the midpoint of the interval \<open>[a, b]\<close> as it stands
  when the loop exits, after \<open>n\<close> halvings. It is not: \<^verbatim>\<open>bisection(func, 1, 2, 1)\<close> returns
  \<open>3/2\<close>, the midpoint of the interval it was given, while the interval held at loop exit
  is \<open>[3/2, 2]\<close>, whose midpoint is \<open>7/4\<close>.
\<close>

theorem bisection_not_mid_of_final_interval:
  "bisection func 1 2 1 = Inr (3 / 2) \<and> interval_mid (bisection_state func 1 2 1) = 7 / 4"
  by (simp add: run_simps func_def power2_eq_square)

text \<open>
  C2, amended: for \<open>n \<ge> 1\<close> the value returned is the midpoint of the interval held after
  \<open>n - 1\<close> halvings, that is of the interval \<open>[a, b]\<close> as it stands when the last iteration
  starts (the midpoint computed last).
\<close>

theorem bisection_returns_last_midpoint:
  assumes "1 \<le> n"
  shows "bisection F a b n = Inr (interval_mid (state_after F a b n (nat n - 1)))"
  using assms by (rule bisection_last_mid)

theorem bisection_returns_last_midpoint_witness:
  "(1::int) \<le> 2 \<and> bisection func 1 2 2 = Inr (interval_mid (state_after func 1 2 2 1))
    \<and> interval_mid (state_after func 1 2 2 1) = 7 / 4"
  using bisection_returns_last_midpoint [of 2 func 1 2]
  by (simp add: run_simps func_def power2_eq_square)

text \<open>
  C3. After \<open>k\<close> iterations of the loop, \<open>k < n\<close>, the width \<open>b - a\<close> of the active interval
  is exactly the width of the interval given divided by \<open>2 ^ k\<close>. The same holds for
  \<open>k = n\<close>, the interval at loop exit.
\<close>

theorem width_after_k_iterations:
  assumes "int k \<le> n"
  shows "interval_width (state_after F a b n k) = (b - a) / 2 ^ k"
proof -
  from assms have "min k (nat n) = k"
    by simp
  then show ?thesis
    by (simp add: state_after_funpow funpow_width) (simp add: interval_width_def entry_def)
qed

theorem width_after_k_iterations_witness:
  "int 2 \<le> 3 \<and> interval_width (state_after func 1 2 3 2) = (2 - 1) / 2 ^ 2"
  using width_after_k_iterations [of 2 3 func 1 2] by simp




text \<open>
  C5. At an iteration whose midpoint \<open>h\<close> has \<open>F(h) = 0\<close> the else branch is taken: \<open>a\<close>
  becomes \<open>h\<close>, \<open>b\<close> is kept, and the loop goes on with the remaining iterations from there
  instead of returning \<open>h\<close>.
\<close>

theorem zero_midpoint_takes_else_branch:
  assumes "k < nat n" and "F (interval_mid (state_after F a b n k)) = 0"
  shows "var_a (state_after F a b n (Suc k)) = interval_mid (state_after F a b n k)
       \<and> var_b (state_after F a b n (Suc k)) = var_b (state_after F a b n k)
       \<and> bisection_state F a b n
           = for_loop F (drop (Suc k) (range_py n)) (state_after F a b n (Suc k))
       \<and> length (drop (Suc k) (range_py n)) = nat n - Suc k"
proof -
  have "bisection_state F a b n
          = for_loop F (drop (Suc k) (range_py n)) (state_after F a b n (Suc k))"
  proof -
    from assms(1) have "nat n = (nat n - Suc k) + Suc k"
      by simp
    then have "(body F ^^ nat n) (entry a b)
                 = (body F ^^ (nat n - Suc k)) ((body F ^^ Suc k) (entry a b))"
      by (metis funpow_add comp_apply)
    with assms(1) show ?thesis
      by (simp add: bisection_state_funpow state_after_funpow for_loop_funpow min_def)
  qed
  with assms show ?thesis
    by (simp add: state_after_Suc body_a body_b)
qed

theorem zero_midpoint_takes_else_branch_witness:
  "bisection_state func2 (- 1) 1 3 = for_loop func2 (drop 1 (range_py 3)) (state_after func2 (- 1) 1 3 1)
   \<and> var_a (state_after func2 (- 1) 1 3 1) = 0 \<and> var_b (state_after func2 (- 1) 1 3 1) = 1
   \<and> bisection func2 (- 1) 1 3 = Inr (3 / 4)"
  using zero_midpoint_takes_else_branch [of 0 3 func2 "- 1" 1]
  by (simp add: run_simps func2_def)

text \<open>
  C6. A call with \<open>n \<ge> 1\<close> evaluates \<open>F\<close> exactly \<open>2n\<close> times, in each iteration once on the
  current left endpoint \<open>a\<close> (recomputed, not cached) and once on the midpoint \<open>h\<close>, in
  this order, and has no other effect: whatever the arithmetic, the callable \<open>F\<close> and the
  world \<open>w\<close> the call starts in, the world it leaves is \<open>w\<close> after exactly these \<open>2n\<close>
  applications of \<open>F\<close>. For a callable that counts its applications the count goes up by
  \<open>2n\<close>.
\<close>

theorem two_calls_per_iteration:
  assumes "1 \<le> n"
  shows "int (length (call_args A F a b n w)) = 2 * n
       \<and> snd (bisection_on A F a b n w) = apply_all F (call_args A F a b n w) w
       \<and> snd (bisection_on A (counted f) a b n c) = c + 2 * nat n"
proof -
  have run: "snd (bisection_on A' F' a' b' n w') = apply_all F' (call_args A' F' a' b' n w') w'"
    for A' :: "'x arith" and F' :: "('x, 'y) callable" and a' b' w'
    by (simp add: bisection_on_def Let_def exit_frame_funpow funpow_world call_args_funpow)
       (simp add: entry_on_def)
  from run [of A "counted f" a b c]
  have "snd (bisection_on A (counted f) a b n c) = c + 2 * nat n"
    by (simp add: apply_all_counted length_call_args)
  with assms run [of A F a b w] show ?thesis
    by (simp add: length_call_args)
qed

theorem two_calls_per_iteration_witness:
  "bisection_on exact_real (logged func) 1 2 2 [] = (Inr (7 / 4), [1, 3 / 2, 3 / 2, 7 / 4])
   \<and> call_args exact_real (logged func) 1 2 2 [] = [1, 3 / 2, 3 / 2, 7 / 4]
   \<and> snd (bisection_on exact_real (counted func) 1 2 2 0) = 4"
proof -
  have "call_args exact_real (logged func) 1 2 2 [] = [1, 3 / 2, 3 / 2, 7 / 4]"
    by (simp add: run_on_simps exact_real_def logged_def func_def power2_eq_square)
  moreover have "fst (bisection_on exact_real (logged func) 1 2 2 []) = Inr (7 / 4)"
    by (simp add: run_on_simps exact_real_def logged_def func_def power2_eq_square)
  ultimately show ?thesis
    using two_calls_per_iteration [of 2 exact_real "logged func" 1 2 "[]" func 0]
    by (simp add: apply_all_logged prod_eq_iff)
qed




text \<open>
  C8. Called with \<open>n \<le> 0\<close> the function never returns a value: the loop body is never
  entered, \<open>h\<close> is unbound at the return statement and the call fails with
  UnboundLocalError. With \<open>n \<ge> 1\<close> this failure is unreachable and the function returns.
\<close>

theorem bisection_unbound_iff_no_iteration:
  "(n \<le> 0 \<longrightarrow> bisection F a b n = Inl UnboundLocalError \<and> bisection_state F a b n = entry a b)
   \<and> (1 \<le> n \<longrightarrow> (\<exists>e. bisection F a b n = Inr e))"
proof (intro conjI impI)
  assume "n \<le> 0"
  then show "bisection F a b n = Inl UnboundLocalError"
    by (simp add: bisection_def bisection_state_def range_py_def entry_def)
next
  assume "n \<le> 0"
  then show "bisection_state F a b n = entry a b"
    by (simp add: bisection_state_def range_py_def)
next
  assume "1 \<le> n"
  then show "\<exists>e. bisection F a b n = Inr e"
    by (simp add: bisection_last_mid)
qed

theorem bisection_unbound_iff_no_iteration_witness:
  "bisection func 1 2 0 = Inl UnboundLocalError \<and> bisection func 1 2 (- 4) = Inl UnboundLocalError
   \<and> bisection func 1 2 1 = Inr (3 / 2)"
  using bisection_unbound_iff_no_iteration [of 0 func 1 2]
    bisection_unbound_iff_no_iteration [of "- 4" func 1 2]
    bisection_unbound_iff_no_iteration [of 1 func 1 2]
  by (simp add: bisection_def bisection_state_def range_py_def entry_def body_def Let_def)

text \<open>
  C9. For distinct endpoints and \<open>n \<ge> 1\<close> the estimate returned lies strictly between
  \<open>min(a, b)\<close> and \<open>max(a, b)\<close>, whether or not \<open>F(a)\<close> and \<open>F(b)\<close> differ in sign.
\<close>

theorem estimate_strictly_inside:
  assumes "a \<noteq> b" and "1 \<le> n"
  shows "\<exists>e. bisection F a b n = Inr e \<and> min a b < e \<and> e < max a b"
proof -
  have "var_a (entry a b) \<noteq> var_b (entry a b)"
    using assms(1) by (simp add: entry_def)
  from funpow_within [OF this, where F = F and k = "nat n - 1"]
  have "min a b < interval_mid (state_after F a b n (nat n - 1))
      \<and> interval_mid (state_after F a b n (nat n - 1)) < max a b"
    using assms(2) by (simp add: state_after_funpow interval_mid_def entry_def)
  with assms(2) show ?thesis
    by (simp add: bisection_last_mid)
qed

theorem estimate_strictly_inside_witness:
  "bisection const_one 2 1 2 = Inr (5 / 4) \<and> min (2::real) 1 < 5 / 4 \<and> 5 / 4 < max (2::real) 1"
  using estimate_strictly_inside [of 2 1 2 const_one]
  by (simp add: run_simps const_one_def)




end
